theory Spec2Isabelle
  imports Complex_Main
begin

section \<open>Backends\<close>

text \<open>
  \<^verbatim>\<open>backend.Backend\<close>: the reverse proxy handle and the two locks carry no data that
  selection or health checking reads, so the record keeps the identity, the target, the
  health flag and the connection counter. The pool is a list of such records in
  configuration order.
\<close>

record Backend =
  ID :: string
  URL :: string
  isHealthy :: bool
  activeConnections :: int

definition NewBackend :: "string \<Rightarrow> string \<Rightarrow> Backend" where
  "NewBackend ident url = \<lparr>ID = ident, URL = url, isHealthy = True, activeConnections = 0\<rparr>"

definition IsHealthy :: "Backend \<Rightarrow> bool" where
  "IsHealthy b = isHealthy b"

definition SetHealthy :: "Backend \<Rightarrow> bool \<Rightarrow> Backend" where
  "SetHealthy b healthy = b\<lparr>isHealthy := healthy\<rparr>"

section \<open>Round-robin selection\<close>

text \<open>
  A Go \<^verbatim>\<open>error\<close> built by \<^verbatim>\<open>fmt.Errorf\<close> is its message; indexing a slice out of
  range is a run-time panic, kept apart from the error values.
\<close>

datatype error = Error string | PanicIndexOutOfRange

record RoundRobinStrategy =
  current :: int

definition NewRoundRobinStrategy :: RoundRobinStrategy where
  "NewRoundRobinStrategy = \<lparr>current = 0\<rparr>"

text \<open>
  The body of the \<^verbatim>\<open>for { ... }\<close> loop of \<^verbatim>\<open>NextBackend\<close>, with the cursor
  \<^verbatim>\<open>s.current\<close> passed explicitly. The loop has no bound of its own, so it is a partial
  function: \<open>None\<close> stands for a loop that never returns. Go's \<^verbatim>\<open>%\<close> agrees with
  \<open>mod\<close> here because both operands are positive once the index check has passed.
\<close>

partial_function (option) rr_loop ::
  "Backend list \<Rightarrow> int \<Rightarrow> int \<Rightarrow> ((error + Backend) \<times> int) option" where
  "rr_loop pool start cur =
     (if cur < 0 \<or> int (length pool) \<le> cur then Some (Inl PanicIndexOutOfRange, cur)
      else if IsHealthy (pool ! nat cur)
        then Some (Inr (pool ! nat cur), (cur + 1) mod int (length pool))
      else if (cur + 1) mod int (length pool) = start
        then Some (Inl (Error ''no healthy backends available''), (cur + 1) mod int (length pool))
      else rr_loop pool start ((cur + 1) mod int (length pool)))"

declare rr_loop.simps [code]

definition NextBackend ::
  "RoundRobinStrategy \<Rightarrow> Backend list \<Rightarrow> ((error + Backend) \<times> RoundRobinStrategy) option" where
  "NextBackend s pool =
     (if length pool = 0 then Some (Inl (Error ''no backends available''), s)
      else map_option (\<lambda>(r, c). (r, s\<lparr>current := c\<rparr>)) (rr_loop pool (current s) (current s)))"

text \<open>
  The same loop body with an explicit bound on the number of iterations: each iteration
  inspects exactly one backend, so \<open>rr_loop_fuel n\<close> is the loop allowed to inspect at
  most \<open>n\<close> backends, and \<open>None\<close> means the bound was reached.
\<close>

fun rr_loop_fuel ::
  "nat \<Rightarrow> Backend list \<Rightarrow> int \<Rightarrow> int \<Rightarrow> ((error + Backend) \<times> int) option" where
  "rr_loop_fuel 0 pool start cur = None"
| "rr_loop_fuel (Suc n) pool start cur =
     (if cur < 0 \<or> int (length pool) \<le> cur then Some (Inl PanicIndexOutOfRange, cur)
      else if IsHealthy (pool ! nat cur)
        then Some (Inr (pool ! nat cur), (cur + 1) mod int (length pool))
      else if (cur + 1) mod int (length pool) = start
        then Some (Inl (Error ''no healthy backends available''), (cur + 1) mod int (length pool))
      else rr_loop_fuel n pool start ((cur + 1) mod int (length pool)))"

text \<open>
  \<open>rr_pos pool c k\<close> is the cursor value \<open>k\<close> advances after \<open>c\<close>. The specified
  algorithm, stated without the loop: an empty pool is an error; otherwise the answer is the
  first healthy backend among the \<open>length pool\<close> positions that follow the cursor
  cyclically, the cursor ends one past it, and when there is none the cursor has wrapped
  back to where it started.
\<close>

definition rr_pos :: "Backend list \<Rightarrow> int \<Rightarrow> nat \<Rightarrow> int" where
  "rr_pos pool c k = (c + int k) mod int (length pool)"

definition spec_round_robin :: "int \<Rightarrow> Backend list \<Rightarrow> (error + Backend) \<times> int" where
  "spec_round_robin c pool =
     (if pool = [] then (Inl (Error ''no backends available''), c)
      else case find (\<lambda>k. isHealthy (pool ! nat (rr_pos pool c k))) [0..<length pool] of
             None \<Rightarrow> (Inl (Error ''no healthy backends available''), c)
           | Some k \<Rightarrow> (Inr (pool ! nat (rr_pos pool c k)), rr_pos pool c (Suc k)))"

text \<open>\<open>N\<close> sequential calls on one strategy value, collecting what each call returns.\<close>

fun NextBackend_times ::
  "nat \<Rightarrow> RoundRobinStrategy \<Rightarrow> Backend list
     \<Rightarrow> ((error + Backend) list \<times> RoundRobinStrategy) option" where
  "NextBackend_times 0 s pool = Some ([], s)"
| "NextBackend_times (Suc n) s pool =
     (case NextBackend s pool of
        None \<Rightarrow> None
      | Some (r, s') \<Rightarrow>
          (case NextBackend_times n s' pool of
             None \<Rightarrow> None
           | Some (rs, s'') \<Rightarrow> Some (r # rs, s'')))"

section \<open>Load-balancer core\<close>

text \<open>
  The \<^verbatim>\<open>Strategy\<close> interface has one implementation; the interface value is a tagged
  variant holding it.
\<close>

datatype Strategy = RoundRobin RoundRobinStrategy

fun Strategy_NextBackend ::
  "Strategy \<Rightarrow> Backend list \<Rightarrow> ((error + Backend) \<times> Strategy) option" where
  "Strategy_NextBackend (RoundRobin s) pool =
     map_option (\<lambda>(r, s'). (r, RoundRobin s')) (NextBackend s pool)"

fun Strategy_Name :: "Strategy \<Rightarrow> string" where
  "Strategy_Name (RoundRobin s) = ''RoundRobin''"

definition ErrUnknownStrategy :: "string \<Rightarrow> error" where
  "ErrUnknownStrategy name = Error (''unknown balancing strategy: '' @ name)"

definition GetStrategy :: "string \<Rightarrow> error + Strategy" where
  "GetStrategy name =
     (if name = ''RoundRobin'' then Inr (RoundRobin NewRoundRobinStrategy)
      else Inl (ErrUnknownStrategy name))"

record loadBalancer =
  backends :: "Backend list"
  strategy :: Strategy

definition GetNextBackend :: "loadBalancer \<Rightarrow> ((error + Backend) \<times> loadBalancer) option" where
  "GetNextBackend lb =
     (case Strategy_NextBackend (strategy lb) (backends lb) of
        None \<Rightarrow> None
      | Some (Inl err, st) \<Rightarrow> Some (Inl err, lb\<lparr>strategy := st\<rparr>)
      | Some (Inr b, st) \<Rightarrow> Some (Inr b, lb\<lparr>strategy := st\<rparr>))"

definition SetStrategy :: "loadBalancer \<Rightarrow> Strategy \<Rightarrow> loadBalancer" where
  "SetStrategy lb st = lb\<lparr>strategy := st\<rparr>"

section \<open>Health checking\<close>

text \<open>
  One probe of \<^verbatim>\<open>checkBackendHealth\<close> has three outcomes: the request could not be built,
  the transport call failed, or a response with a status code arrived. The function
  returns the backend as the probe leaves it and the log lines it wrote, in order.
\<close>

datatype probe = ProbeRequestError | ProbeTransportError | ProbeResponse int

datatype log_level = LevelError | LevelWarn | LevelInfo

definition checkBackendHealth ::
  "Backend \<Rightarrow> probe \<Rightarrow> Backend \<times> (log_level \<times> string) list" where
  "checkBackendHealth b outcome =
     (case outcome of
        ProbeRequestError \<Rightarrow> (b, [(LevelError, ''Failed to create health check request'')])
      | ProbeTransportError \<Rightarrow>
          (let wasHealthy = IsHealthy b; b' = SetHealthy b False
           in (b', (LevelWarn, ''Health check connection failed'') #
                   (if wasHealthy
                    then [(LevelWarn, ''Backend became unhealthy due to connection error'')]
                    else [])))
      | ProbeResponse statusCode \<Rightarrow>
          (let healthyNow = (statusCode = 200); wasHealthy = IsHealthy b;
               b' = SetHealthy b healthyNow
           in (b', if wasHealthy \<noteq> healthyNow
                   then (if healthyNow then [(LevelInfo, ''Backend became healthy'')]
                         else [(LevelWarn, ''Backend became unhealthy'')])
                   else [])))"

section \<open>Rate limiter\<close>

record UserLimits =
  Rate :: real
  Burst :: int

text \<open>
  Modelled from the spec: the token bucket behind \<^verbatim>\<open>rate.Limiter\<close>, whose code is not
  part of the sources. Capacity is the burst, tokens refill continuously at \<open>limit\<close>
  tokens per second and are capped at the burst, and a new bucket is full. Time is the
  clock reading in seconds, passed by the caller, and token counts are reals.
\<close>

record Limiter =
  limit :: real
  burst :: int
  tokens :: real
  last :: real

text \<open>
  Modelled from the spec: \<^verbatim>\<open>rate.NewLimiter\<close>, absent from the sources. A new bucket
  holds \<open>burst\<close> tokens.
\<close>

definition NewLimiter :: "real \<Rightarrow> int \<Rightarrow> Limiter" where
  "NewLimiter r b = \<lparr>limit = r, burst = b, tokens = of_int b, last = 0\<rparr>"



text \<open>
  \<^verbatim>\<open>TokenBucket\<close>. The \<^verbatim>\<open>limiters\<close> map holds pointers: \<^verbatim>\<open>rate.NewLimiter\<close>
  allocates a limiter, \<^verbatim>\<open>limiters.Store\<close> keeps its address, and \<^verbatim>\<open>limiter.Allow()\<close>
  changes the object behind the address without storing anything. So \<open>limiters\<close> maps a
  client id to an address, \<open>heap\<close> maps the addresses allocated so far to the limiter
  objects, and \<open>nextAddr\<close> is the next free address. A \<^verbatim>\<open>*UserLimits\<close> is only ever
  changed before it is stored, so \<open>clientLimits\<close> holds the values. Log calls do not
  touch the state and are left out.
\<close>

record TokenBucket =
  defaultRate :: real
  defaultBurst :: int
  limiters :: "string \<rightharpoonup> nat"
  clientLimits :: "string \<rightharpoonup> UserLimits"
  heap :: "nat \<rightharpoonup> Limiter"
  nextAddr :: nat

definition NewTokenBucket :: "real \<Rightarrow> int \<Rightarrow> TokenBucket" where
  "NewTokenBucket r b =
     \<lparr>defaultRate = r, defaultBurst = b, limiters = Map.empty, clientLimits = Map.empty,
      heap = Map.empty, nextAddr = 0\<rparr>"

text \<open>Allocation of a limiter object: its address, and the state with the object in it.\<close>

definition alloc :: "TokenBucket \<Rightarrow> Limiter \<Rightarrow> nat \<times> TokenBucket" where
  "alloc tb lm =
     (nextAddr tb, tb\<lparr>heap := (heap tb)(nextAddr tb \<mapsto> lm), nextAddr := Suc (nextAddr tb)\<rparr>)"

definition GetClientLimits :: "TokenBucket \<Rightarrow> string \<Rightarrow> UserLimits" where
  "GetClientLimits tb clientID =
     (case clientLimits tb clientID of
        Some limits \<Rightarrow> limits
      | None \<Rightarrow> \<lparr>Rate = defaultRate tb, Burst = defaultBurst tb\<rparr>)"

definition GetBurst :: "TokenBucket \<Rightarrow> string \<Rightarrow> int" where
  "GetBurst tb clientID = Burst (GetClientLimits tb clientID)"

definition GetRate :: "TokenBucket \<Rightarrow> string \<Rightarrow> real" where
  "GetRate tb clientID = Rate (GetClientLimits tb clientID)"




definition SetClientLimits :: "TokenBucket \<Rightarrow> string \<Rightarrow> real \<Rightarrow> int \<Rightarrow> TokenBucket" where
  "SetClientLimits tb clientID myrate b =
     (let tb1 = tb\<lparr>clientLimits := (clientLimits tb)(clientID \<mapsto> \<lparr>Rate = myrate, Burst = b\<rparr>)\<rparr>;
          (limiter, tb2) = alloc tb1 (NewLimiter myrate b)
      in tb2\<lparr>limiters := (limiters tb2)(clientID \<mapsto> limiter)\<rparr>)"

definition DeleteClientLimits :: "TokenBucket \<Rightarrow> string \<Rightarrow> TokenBucket" where
  "DeleteClientLimits tb clientID =
     tb\<lparr>clientLimits := (clientLimits tb)(clientID := None),
        limiters := (limiters tb)(clientID := None)\<rparr>"

definition UpdateClientLimits ::
  "TokenBucket \<Rightarrow> string \<Rightarrow> (UserLimits \<Rightarrow> UserLimits) \<Rightarrow> TokenBucket" where
  "UpdateClientLimits tb clientID updateFn =
     (let limits = updateFn (GetClientLimits tb clientID);
          tb1 = tb\<lparr>clientLimits := (clientLimits tb)(clientID \<mapsto> limits)\<rparr>;
          (limiter, tb2) = alloc tb1 (NewLimiter (Rate limits) (Burst limits))
      in tb2\<lparr>limiters := (limiters tb2)(clientID \<mapsto> limiter)\<rparr>)"



section \<open>Admission middleware: the client identifier\<close>

text \<open>
  \<^verbatim>\<open>strings.Split(s, sep)\<close> for a separator of one byte, which is how the sources call
  it (\<^verbatim>\<open>","\<close>, \<^verbatim>\<open>":"\<close>, \<^verbatim>\<open>"/"\<close>): the pieces between the separators, in order,
  and one empty piece for the empty string.
\<close>

fun Split :: "string \<Rightarrow> char \<Rightarrow> string list" where
  "Split [] sep = [[]]"
| "Split (x # xs) sep =
     (if x = sep then [] # Split xs sep
      else (case Split xs sep of [] \<Rightarrow> [[x]] | p # ps \<Rightarrow> (x # p) # ps))"

text \<open>
  \<^verbatim>\<open>http.Header\<close> is a map from canonical keys to the list of values, and
  \<^verbatim>\<open>Header.Get\<close> canonicalises the key it is given and returns the first value, or the
  empty string. The canonical form is modelled for keys made of letters and hyphens, which
  both keys read here are: a letter is upper case at the start and after a hyphen, lower
  case elsewhere.
\<close>

definition toUpper :: "char \<Rightarrow> char" where
  "toUpper c =
     (case map_of (zip ''abcdefghijklmnopqrstuvwxyz'' ''ABCDEFGHIJKLMNOPQRSTUVWXYZ'') c of
        Some u \<Rightarrow> u | None \<Rightarrow> c)"

definition toLower :: "char \<Rightarrow> char" where
  "toLower c =
     (case map_of (zip ''ABCDEFGHIJKLMNOPQRSTUVWXYZ'' ''abcdefghijklmnopqrstuvwxyz'') c of
        Some l \<Rightarrow> l | None \<Rightarrow> c)"

fun canonicalKey :: "bool \<Rightarrow> string \<Rightarrow> string" where
  "canonicalKey upper [] = []"
| "canonicalKey upper (c # cs) =
     (let c' = (if upper then toUpper c else toLower c)
      in c' # canonicalKey (c' = CHR ''-'') cs)"

definition CanonicalMIMEHeaderKey :: "string \<Rightarrow> string" where
  "CanonicalMIMEHeaderKey key = canonicalKey True key"

definition Header_Get :: "(string \<rightharpoonup> string list) \<Rightarrow> string \<Rightarrow> string" where
  "Header_Get h key =
     (case h (CanonicalMIMEHeaderKey key) of
        None \<Rightarrow> []
      | Some [] \<Rightarrow> []
      | Some (v # vs) \<Rightarrow> v)"

text \<open>
  The parts of \<^verbatim>\<open>http.Request\<close> the handlers read. \<open>Body\<close> is what decoding the JSON
  body into a \<^verbatim>\<open>RateLimitRequest\<close> gives: \<open>None\<close> when \<^verbatim>\<open>Decode\<close> returns an error.
  \<^verbatim>\<open>RateLimitRequest\<close> has the two fields of \<^verbatim>\<open>UserLimits\<close>.
\<close>

type_synonym RateLimitRequest = UserLimits

record Request =
  Method :: string
  Path :: string
  Header :: "string \<rightharpoonup> string list"
  RemoteAddr :: string
  Body :: "RateLimitRequest option"

text \<open>
  \<^verbatim>\<open>strings.TrimSpace\<close> belongs to Go's standard library and depends on the Unicode
  tables; \<open>getClientID\<close> takes it as the parameter \<open>TrimSpace\<close>. On a string of ASCII
  bytes it removes the leading and trailing tabs, line feeds, vertical tabs, form feeds,
  carriage returns and spaces, which is \<open>trimASCII\<close>. Indexing the result of
  \<^verbatim>\<open>strings.Split\<close> at 0 cannot fail, since the result is never empty.
\<close>

definition asciiSpace :: "char \<Rightarrow> bool" where
  "asciiSpace c = (c \<in> set [CHR 0x09, CHR 0x0A, CHR 0x0B, CHR 0x0C, CHR 0x0D, CHR 0x20])"

definition trimASCII :: "string \<Rightarrow> string" where
  "trimASCII s = rev (dropWhile asciiSpace (rev (dropWhile asciiSpace s)))"

definition getClientID :: "(string \<Rightarrow> string) \<Rightarrow> Request \<Rightarrow> string" where
  "getClientID TrimSpace r =
     (let apiKey = Header_Get (Header r) ''X-API-Key''
      in if apiKey \<noteq> [] then ''api:'' @ apiKey
         else let forwardedFor = Header_Get (Header r) ''X-Forwarded-For''
              in if forwardedFor \<noteq> [] then TrimSpace (Split forwardedFor CHR '','' ! 0)
                 else Split (RemoteAddr r) CHR '':'' ! 0)"

section \<open>Admin handler for rate limits\<close>

text \<open>
  A response is the status code and what was written as the body: nothing, the message of
  \<^verbatim>\<open>http.Error\<close>, or the JSON encoding of a rate and a burst. A handler returns the
  response and the rate limiter as the request leaves it.
\<close>

datatype ResponseBody = NoBody | ErrorText string | LimitsJSON real int

record Response =
  status :: int
  body :: ResponseBody

definition http_Error :: "string \<Rightarrow> int \<Rightarrow> Response" where
  "http_Error msg code = \<lparr>status = code, body = ErrorText msg\<rparr>"

definition getRateLimit :: "TokenBucket \<Rightarrow> string \<Rightarrow> Response \<times> TokenBucket" where
  "getRateLimit tb clientID =
     (let limits = GetClientLimits tb clientID
      in (\<lparr>status = 200, body = LimitsJSON (Rate limits) (Burst limits)\<rparr>, tb))"

definition createRateLimit :: "TokenBucket \<Rightarrow> Request \<Rightarrow> string \<Rightarrow> Response \<times> TokenBucket" where
  "createRateLimit tb r clientID =
     (case Body r of
        None \<Rightarrow> (http_Error ''Invalid request body'' 400, tb)
      | Some limits \<Rightarrow>
          if Rate limits \<le> 0 \<or> Burst limits \<le> 0
          then (http_Error ''Rate and burst must be positive'' 400, tb)
          else (\<lparr>status = 201, body = NoBody\<rparr>,
                SetClientLimits tb clientID (Rate limits) (Burst limits)))"

definition updateRateLimit :: "TokenBucket \<Rightarrow> Request \<Rightarrow> string \<Rightarrow> Response \<times> TokenBucket" where
  "updateRateLimit tb r clientID =
     (case Body r of
        None \<Rightarrow> (http_Error ''Invalid request body'' 400, tb)
      | Some limits \<Rightarrow>
          if Rate limits \<le> 0 \<or> Burst limits \<le> 0
          then (http_Error ''Rate and burst must be positive'' 400, tb)
          else (\<lparr>status = 200, body = NoBody\<rparr>,
                UpdateClientLimits tb clientID
                  (\<lambda>ul. ul\<lparr>Rate := Rate limits, Burst := Burst limits\<rparr>)))"

definition deleteRateLimit :: "TokenBucket \<Rightarrow> string \<Rightarrow> Response \<times> TokenBucket" where
  "deleteRateLimit tb clientID =
     (\<lparr>status = 204, body = NoBody\<rparr>, DeleteClientLimits tb clientID)"

definition HandleRateLimit :: "TokenBucket \<Rightarrow> Request \<Rightarrow> Response \<times> TokenBucket" where
  "HandleRateLimit tb r =
     (let parts = Split (Path r) CHR ''/''
      in if length parts < 4
         then (http_Error ''Invalid URL format. Use /admin/ratelimit/{clientID}'' 400, tb)
         else let clientID = parts ! 3
              in if Method r = ''GET'' then getRateLimit tb clientID
                 else if Method r = ''POST'' then createRateLimit tb r clientID
                 else if Method r = ''PUT'' then updateRateLimit tb r clientID
                 else if Method r = ''DELETE'' then deleteRateLimit tb clientID
                 else (http_Error ''Method not allowed'' 405, tb))"

section \<open>Scenario data\<close>

text \<open>
  The pool of the end-to-end scenarios: three backends in configuration order, and the
  same pool after a health-check cycle in which the second answered its probe with a
  status other than 200.
\<close>

definition b1 :: Backend where
  "b1 = NewBackend ''b1'' ''http://backend1:8080''"

definition b2 :: Backend where
  "b2 = NewBackend ''b2'' ''http://backend2:8080''"

definition b3 :: Backend where
  "b3 = NewBackend ''b3'' ''http://backend3:8080''"

definition b2_down :: Backend where
  "b2_down = fst (checkBackendHealth b2 (ProbeResponse 503))"

section \<open>Proofs: round-robin selection\<close>

lemma rr_loop_fuel_sound:
  "rr_loop_fuel n pool start cur = Some r \<Longrightarrow> rr_loop pool start cur = Some r"
proof (induction n arbitrary: cur)
  case 0
  then show ?case by simp
next
  case (Suc n)
  have "rr_loop_fuel n pool start ((cur + 1) mod int (length pool)) = Some r
      \<Longrightarrow> rr_loop pool start ((cur + 1) mod int (length pool)) = Some r"
    by (rule Suc.IH)
  with Suc.prems show ?case
    by (auto simp add: rr_loop.simps [of pool start cur] split: if_splits)
qed

lemma rr_pos_0: "0 \<le> c \<Longrightarrow> c < int (length pool) \<Longrightarrow> rr_pos pool c 0 = c"
  by (simp add: rr_pos_def)

lemma rr_pos_Suc: "(rr_pos pool c k + 1) mod int (length pool) = rr_pos pool c (Suc k)"
  by (simp add: rr_pos_def mod_simps ac_simps)

lemma rr_pos_range: "pool \<noteq> [] \<Longrightarrow> 0 \<le> rr_pos pool c k \<and> rr_pos pool c k < int (length pool)"
  by (simp add: rr_pos_def)

lemma rr_pos_wrap:
  assumes "0 \<le> c" "c < int (length pool)" "0 < k" "k \<le> length pool"
  shows "rr_pos pool c k = c \<longleftrightarrow> k = length pool"
proof
  assume "k = length pool"
  with assms show "rr_pos pool c k = c" by (simp add: rr_pos_def)
next
  assume eq: "rr_pos pool c k = c"
  have "(c + int k) mod int (length pool) = c mod int (length pool)"
    using eq assms by (simp add: rr_pos_def)
  then have "int (length pool) dvd int k"
    by (metis add_diff_cancel_left' mod_eq_dvd_iff)
  then have "length pool dvd k" by (simp only: int_dvd_int_iff)
  with assms show "k = length pool"
    by (meson dvd_imp_le le_antisym)
qed

lemma scan_found:
  assumes n: "pool \<noteq> []" and c: "0 \<le> c" "c < int (length pool)"
  shows "j \<le> k \<Longrightarrow> k < length pool \<Longrightarrow> IsHealthy (pool ! nat (rr_pos pool c k)) \<Longrightarrow>
    (\<forall>i. j \<le> i \<and> i < k \<longrightarrow> \<not> IsHealthy (pool ! nat (rr_pos pool c i))) \<Longrightarrow>
    rr_loop_fuel (Suc (k - j)) pool c (rr_pos pool c j)
      = Some (Inr (pool ! nat (rr_pos pool c k)), rr_pos pool c (Suc k))"
proof (induction "k - j" arbitrary: j)
  case 0
  then have "j = k" by simp
  with 0 n show ?case
    using rr_pos_range [OF n, of c k] by (simp add: rr_pos_Suc)
next
  case (Suc d)
  then have jk: "j < k" and d: "d = k - Suc j" by simp_all
  have unh: "\<not> IsHealthy (pool ! nat (rr_pos pool c j))" using Suc.prems jk by simp
  have nw: "rr_pos pool c (Suc j) \<noteq> c"
    using rr_pos_wrap [OF c, of "Suc j"] jk Suc.prems by simp
  have IH: "rr_loop_fuel (Suc (k - Suc j)) pool c (rr_pos pool c (Suc j))
      = Some (Inr (pool ! nat (rr_pos pool c k)), rr_pos pool c (Suc k))"
    using Suc.hyps(1) [OF d] jk Suc.prems by simp
  have fuel: "Suc (k - j) = Suc (Suc (k - Suc j))" using jk by simp
  show ?case
    unfolding fuel
    using rr_pos_range [OF n, of c j] unh nw IH
    by (simp add: rr_pos_Suc del: rr_loop_fuel.simps(2) add: rr_loop_fuel.simps(2) [of "Suc (k - Suc j)"])
qed


lemma scan_none:
  assumes n: "pool \<noteq> []" and c: "0 \<le> c" "c < int (length pool)"
  shows "j < length pool \<Longrightarrow>
    (\<forall>i. j \<le> i \<and> i < length pool \<longrightarrow> \<not> IsHealthy (pool ! nat (rr_pos pool c i))) \<Longrightarrow>
    rr_loop_fuel (length pool - j) pool c (rr_pos pool c j)
      = Some (Inl (Error ''no healthy backends available''), c)"
proof (induction "length pool - Suc j" arbitrary: j)
  case 0
  then have last: "Suc j = length pool" by simp
  then have fuel: "length pool - j = Suc 0" by simp
  have unh: "\<not> IsHealthy (pool ! nat (rr_pos pool c j))" using "0.prems" by simp
  have w: "rr_pos pool c (Suc j) = c"
    using rr_pos_wrap [OF c, of "Suc j"] last n by simp
  show ?case
    unfolding fuel
    using rr_pos_range [OF n, of c j] unh w
    by (simp add: rr_pos_Suc)
next
  case (Suc d)
  then have jn: "Suc j < length pool" and d: "d = length pool - Suc (Suc j)" by simp_all
  have unh: "\<not> IsHealthy (pool ! nat (rr_pos pool c j))" using Suc.prems by simp
  have nw: "rr_pos pool c (Suc j) \<noteq> c"
    using rr_pos_wrap [OF c, of "Suc j"] jn by simp
  have IH: "rr_loop_fuel (length pool - Suc j) pool c (rr_pos pool c (Suc j))
      = Some (Inl (Error ''no healthy backends available''), c)"
    using Suc.hyps(1) [OF d jn] Suc.prems by simp
  have fuel: "length pool - j = Suc (length pool - Suc j)" using jn by simp
  show ?case
    unfolding fuel
    using rr_pos_range [OF n, of c j] unh nw IH
    by (simp add: rr_pos_Suc del: rr_loop_fuel.simps(2) add: rr_loop_fuel.simps(2) [of "length pool - Suc j"])
qed

lemma rr_loop_fuel_mono:
  "rr_loop_fuel m pool start cur = Some r \<Longrightarrow> m \<le> m' \<Longrightarrow> rr_loop_fuel m' pool start cur = Some r"
proof (induction m arbitrary: m' cur)
  case 0
  then show ?case by simp
next
  case (Suc m)
  then obtain k where m': "m' = Suc k" and mk: "m \<le> k" by (cases m') simp_all
  have "rr_loop_fuel m pool start ((cur + 1) mod int (length pool)) = Some r
      \<Longrightarrow> rr_loop_fuel k pool start ((cur + 1) mod int (length pool)) = Some r"
    using Suc.IH mk by blast
  with Suc.prems(1) show ?case
    unfolding m' by (auto split: if_splits)
qed

lemma rr_loop_fuel_spec:
  assumes n: "pool \<noteq> []" and c: "0 \<le> c" "c < int (length pool)"
  shows "rr_loop_fuel (length pool) pool c c = Some (spec_round_robin c pool)"
proof (cases "find (\<lambda>k. isHealthy (pool ! nat (rr_pos pool c k))) [0..<length pool]")
  case None
  then have "\<forall>i. 0 \<le> i \<and> i < length pool \<longrightarrow> \<not> IsHealthy (pool ! nat (rr_pos pool c i))"
    by (simp add: find_None_iff IsHealthy_def)
  from scan_none [OF n c _ this] n c None show ?thesis
    by (simp add: spec_round_robin_def rr_pos_0)
next
  case (Some k)
  then have k: "k < length pool" "IsHealthy (pool ! nat (rr_pos pool c k))"
    and before: "\<forall>i. 0 \<le> i \<and> i < k \<longrightarrow> \<not> IsHealthy (pool ! nat (rr_pos pool c i))"
    by (auto simp add: find_Some_iff IsHealthy_def)
  have "rr_loop_fuel (Suc (k - 0)) pool c (rr_pos pool c 0)
      = Some (Inr (pool ! nat (rr_pos pool c k)), rr_pos pool c (Suc k))"
    by (rule scan_found [OF n c _ k before]) simp
  then have "rr_loop_fuel (Suc k) pool c c
      = Some (Inr (pool ! nat (rr_pos pool c k)), rr_pos pool c (Suc k))"
    using c by (simp add: rr_pos_0)
  from rr_loop_fuel_mono [OF this, of "length pool"] k n Some show ?thesis
    by (simp add: spec_round_robin_def)
qed

lemma rr_loop_returns_healthy:
  assumes "rr_loop pool start cur = Some r"
  shows "\<forall>b c'. r = (Inr b, c') \<longrightarrow> b \<in> set pool \<and> IsHealthy b"
proof (rule rr_loop.raw_induct
    [where P = "\<lambda>pool start cur r. \<forall>b c'. r = (Inr b, c') \<longrightarrow> b \<in> set pool \<and> IsHealthy b",
     OF _ assms])
  fix rr pool start cur and r :: "(error + Backend) \<times> int"
  assume IH: "\<And>pool start cur r. rr pool start cur = Some r
      \<Longrightarrow> \<forall>b c'. r = (Inr b, c') \<longrightarrow> b \<in> set pool \<and> IsHealthy b"
    and step: "(if cur < 0 \<or> int (length pool) \<le> cur
      then Some (Inl PanicIndexOutOfRange, cur)
      else if IsHealthy (pool ! nat cur)
           then Some (Inr (pool ! nat cur), (cur + 1) mod int (length pool))
           else if (cur + 1) mod int (length pool) = start
                then Some (Inl (Error ''no healthy backends available''),
                       (cur + 1) mod int (length pool))
                else rr pool start ((cur + 1) mod int (length pool))) = Some r"
  show "\<forall>b c'. r = (Inr b, c') \<longrightarrow> b \<in> set pool \<and> IsHealthy b"
  proof (cases "cur < 0 \<or> int (length pool) \<le> cur")
    case True
    with step show ?thesis by auto
  next
    case range: False
    then have "nat cur < length pool" by linarith
    then have mem: "pool ! nat cur \<in> set pool" by (rule nth_mem)
    show ?thesis
    proof (cases "IsHealthy (pool ! nat cur)")
      case True
      with step range mem show ?thesis by auto
    next
      case False
      with step range IH [of pool start "(cur + 1) mod int (length pool)" r] show ?thesis
        by (auto split: if_splits)
    qed
  qed
qed

lemma NextBackend_healthy_step:
  assumes "0 \<le> c" and "c < int (length pool)" and "IsHealthy (pool ! nat c)"
  shows "NextBackend \<lparr>current = c\<rparr> pool
    = Some (Inr (pool ! nat c), \<lparr>current = (c + 1) mod int (length pool)\<rparr>)"
proof -
  have "pool \<noteq> []" using assms by auto
  with assms show ?thesis
    by (simp add: NextBackend_def rr_loop.simps [of pool c c])
qed

lemma rr_pos_shift: "rr_pos pool (rr_pos pool c (Suc 0)) i = rr_pos pool c (Suc i)"
  by (simp add: rr_pos_def mod_simps ac_simps)

lemma upt_0_Suc_map: "[0..<Suc n] = 0 # map Suc [0..<n]"
  by (simp add: upt_conv_Cons map_Suc_upt del: upt_Suc)

lemma NextBackend_times_all_healthy:
  assumes h: "\<forall>b\<in>set pool. IsHealthy b"
  shows "0 \<le> c \<Longrightarrow> c < int (length pool) \<Longrightarrow>
    NextBackend_times n \<lparr>current = c\<rparr> pool
      = Some (map (\<lambda>i. Inr (pool ! nat (rr_pos pool c i))) [0..<n],
              \<lparr>current = rr_pos pool c n\<rparr>)"
proof (induction n arbitrary: c)
  case 0
  then show ?case by (simp add: rr_pos_0)
next
  case (Suc n)
  have ne: "pool \<noteq> []" using Suc.prems by auto
  have "nat c < length pool" using Suc.prems by linarith
  then have hc: "IsHealthy (pool ! nat c)" using h by simp
  have c1: "(c + 1) mod int (length pool) = rr_pos pool c 1"
    by (simp add: rr_pos_def)
  have step: "NextBackend \<lparr>current = c\<rparr> pool = Some (Inr (pool ! nat c), \<lparr>current = rr_pos pool c 1\<rparr>)"
    using NextBackend_healthy_step [OF Suc.prems hc] c1 by simp
  have rest: "NextBackend_times n \<lparr>current = rr_pos pool c 1\<rparr> pool
      = Some (map (\<lambda>i. Inr (pool ! nat (rr_pos pool (rr_pos pool c 1) i))) [0..<n],
              \<lparr>current = rr_pos pool (rr_pos pool c 1) n\<rparr>)"
    using Suc.IH [of "rr_pos pool c 1"] rr_pos_range [OF ne, of c 1] by simp
  show ?case
    unfolding upt_0_Suc_map
    using step rest Suc.prems
    by (simp add: rr_pos_shift rr_pos_0 comp_def del: upt_Suc)
qed

lemma length_concat_replicate: "length (concat (replicate n xs)) = n * length xs"
  by (induction n) simp_all

lemma nth_concat_replicate:
  "i < n * length xs \<Longrightarrow> concat (replicate n xs) ! i = xs ! (i mod length xs)"
proof (induction n arbitrary: i)
  case 0
  then show ?case by simp
next
  case (Suc n)
  show ?case
  proof (cases "i < length xs")
    case True
    then show ?thesis by (simp add: nth_append)
  next
    case False
    then have "i - length xs < n * length xs" using Suc.prems by simp
    from Suc.IH [OF this] False show ?thesis
      by (simp add: nth_append le_mod_geq)
  qed
qed

lemma cycle_eq_take_concat:
  assumes "xs \<noteq> []"
  shows "map (\<lambda>i. xs ! (i mod length xs)) [0..<n] = take n (concat (replicate n xs))"
proof (rule nth_equalityI)
  have "n \<le> n * length xs" using assms by (cases xs) simp_all
  then show len: "length (map (\<lambda>i. xs ! (i mod length xs)) [0..<n])
      = length (take n (concat (replicate n xs)))"
    by (simp add: length_concat_replicate)
  fix i assume "i < length (map (\<lambda>i. xs ! (i mod length xs)) [0..<n])"
  then have i: "i < n" by simp
  with \<open>n \<le> n * length xs\<close> have "i < n * length xs" by linarith
  with i show "map (\<lambda>i. xs ! (i mod length xs)) [0..<n] ! i = take n (concat (replicate n xs)) ! i"
    by (simp add: nth_concat_replicate)
qed

lemma count_residue:
  assumes "j < k"
  shows "length (filter (\<lambda>i. i mod k = j) [0..<n]) = n div k + (if j < n mod k then 1 else 0)"
proof (induction n)
  case 0
  then show ?case by simp
next
  case (Suc n)
  show ?case
  proof (cases "Suc (n mod k) = k")
    case True
    then have "Suc n mod k = 0" "Suc n div k = Suc (n div k)"
      by (simp_all add: mod_Suc div_Suc)
    with Suc True assms show ?thesis by auto
  next
    case False
    then have "Suc n mod k = Suc (n mod k)" "Suc n div k = n div k"
      by (simp_all add: mod_Suc div_Suc)
    with Suc False assms show ?thesis by auto
  qed
qed

lemma floor_or_ceil:
  assumes "0 < k"
  shows "n div k + (if (j::nat) < n mod k then 1 else 0) \<in> {n div k, (n + k - 1) div k}"
proof (cases "n mod k = 0")
  case True
  then show ?thesis by simp
next
  case False
  define q r where "q = n div k" and "r = n mod k"
  have n: "n = q * k + r" by (simp add: q_def r_def)
  have r: "0 < r" "r < k" using False assms by (simp_all add: r_def)
  have "n + k - 1 = (r - 1) + (q + 1) * k" using r by (simp add: n algebra_simps)
  then have "(n + k - 1) div k = (q + 1) + (r - 1) div k"
    using assms by (simp only: div_mult_self1 [of k "r - 1" "q + 1"])
  moreover have "(r - 1) div k = 0" using r by simp
  ultimately have "(n + k - 1) div k = n div k + 1" by (simp add: q_def)
  then show ?thesis by simp
qed

lemma count_list_cycle:
  assumes d: "distinct xs" and j: "j < length xs"
  shows "count_list (map (\<lambda>i. xs ! (i mod length xs)) [0..<n]) (xs ! j)
    = length (filter (\<lambda>i. i mod length xs = j) [0..<n])"
proof -
  have "0 < length xs" using j by (cases xs) simp_all
  then have "\<And>i. (xs ! j = xs ! (i mod length xs)) = (i mod length xs = j)"
    using d j by (auto simp add: nth_eq_iff_index_eq)
  then show ?thesis
    by (simp add: count_list_eq_length_filter filter_map comp_def)
qed

lemma b2_down_eq: "b2_down = b2\<lparr>isHealthy := False\<rparr>"
  by (simp add: b2_down_def checkBackendHealth_def SetHealthy_def Let_def)

lemma scenario_health:
  "IsHealthy b1" "IsHealthy b2" "IsHealthy b3" "\<not> IsHealthy b2_down"
  by (simp_all add: b2_down_eq IsHealthy_def b1_def b2_def b3_def NewBackend_def)

lemma GetNextBackend_eq:
  "GetNextBackend lb =
     map_option (\<lambda>(r, st). (r, lb\<lparr>strategy := st\<rparr>))
       (Strategy_NextBackend (strategy lb) (backends lb))"
  by (simp add: GetNextBackend_def split: option.splits sum.splits prod.splits)

lemma NextBackend_down_up:
  "NextBackend NewRoundRobinStrategy [b2_down, b3] = Some (Inr b3, \<lparr>current = 0\<rparr>)"
  by (simp add: NextBackend_def NewRoundRobinStrategy_def scenario_health
      rr_loop.simps [of _ 0 0] rr_loop.simps [of _ 0 1])

lemma NextBackend_down:
  "NextBackend NewRoundRobinStrategy [b2_down]
     = Some (Inl (Error ''no healthy backends available''), NewRoundRobinStrategy)"
  by (simp add: NextBackend_def NewRoundRobinStrategy_def scenario_health
      rr_loop.simps [of _ 0 0])

text \<open>
  C1. A call that returns a backend returns a member of the pool whose health flag read
  true, both for \<open>NextBackend\<close> (whatever the cursor) and for \<open>GetNextBackend\<close>; when
  no backend of the pool is healthy, and the cursor is a valid index (or the pool is
  empty), the call returns an error and no backend, and \<open>GetNextBackend\<close> returns
  exactly what the strategy returned.
\<close>

theorem selection_returns_only_healthy:
  "(NextBackend s pool = Some (Inr b, s') \<longrightarrow> b \<in> set pool \<and> IsHealthy b)
   \<and> (GetNextBackend lb = Some (Inr b', lb') \<longrightarrow> b' \<in> set (backends lb) \<and> IsHealthy b')
   \<and> ((pool0 = [] \<or> (0 \<le> current s0 \<and> current s0 < int (length pool0)))
        \<and> (\<forall>x\<in>set pool0. \<not> IsHealthy x)
      \<longrightarrow> (\<exists>msg. NextBackend s0 pool0 = Some (Inl (Error msg), s0)
             \<and> GetNextBackend \<lparr>backends = pool0, strategy = RoundRobin s0\<rparr>
                 = Some (Inl (Error msg), \<lparr>backends = pool0, strategy = RoundRobin s0\<rparr>)))
   \<and> GetNextBackend lb =
       map_option (\<lambda>(r, st). (r, lb\<lparr>strategy := st\<rparr>))
         (Strategy_NextBackend (strategy lb) (backends lb))"
proof -
  have p1: "NextBackend s pool = Some (Inr b, s') \<longrightarrow> b \<in> set pool \<and> IsHealthy b"
  proof
    assume "NextBackend s pool = Some (Inr b, s')"
    then obtain c' where "rr_loop pool (current s) (current s) = Some (Inr b, c')"
      by (auto simp add: NextBackend_def split: if_splits)
    from rr_loop_returns_healthy [OF this] show "b \<in> set pool \<and> IsHealthy b" by simp
  qed
  have p2: "GetNextBackend lb = Some (Inr b', lb') \<longrightarrow> b' \<in> set (backends lb) \<and> IsHealthy b'"
  proof
    assume g: "GetNextBackend lb = Some (Inr b', lb')"
    obtain s1 where st: "strategy lb = RoundRobin s1" by (cases "strategy lb") simp
    from g st obtain s2 where "NextBackend s1 (backends lb) = Some (Inr b', s2)"
      by (auto simp add: GetNextBackend_eq)
    then obtain c' where "rr_loop (backends lb) (current s1) (current s1) = Some (Inr b', c')"
      by (auto simp add: NextBackend_def split: if_splits)
    from rr_loop_returns_healthy [OF this] show "b' \<in> set (backends lb) \<and> IsHealthy b'"
      by simp
  qed
  have p3: "(pool0 = [] \<or> (0 \<le> current s0 \<and> current s0 < int (length pool0)))
        \<and> (\<forall>x\<in>set pool0. \<not> IsHealthy x)
      \<longrightarrow> (\<exists>msg. NextBackend s0 pool0 = Some (Inl (Error msg), s0)
             \<and> GetNextBackend \<lparr>backends = pool0, strategy = RoundRobin s0\<rparr>
                 = Some (Inl (Error msg), \<lparr>backends = pool0, strategy = RoundRobin s0\<rparr>))"
  proof
    assume a: "(pool0 = [] \<or> (0 \<le> current s0 \<and> current s0 < int (length pool0)))
        \<and> (\<forall>x\<in>set pool0. \<not> IsHealthy x)"
    show "\<exists>msg. NextBackend s0 pool0 = Some (Inl (Error msg), s0)
        \<and> GetNextBackend \<lparr>backends = pool0, strategy = RoundRobin s0\<rparr>
            = Some (Inl (Error msg), \<lparr>backends = pool0, strategy = RoundRobin s0\<rparr>)"
    proof (cases "pool0 = []")
      case True
      then show ?thesis by (simp add: NextBackend_def GetNextBackend_eq)
    next
      case False
      with a have c: "0 \<le> current s0" "current s0 < int (length pool0)" by simp_all
      have pos: "\<And>k. nat (rr_pos pool0 (current s0) k) < length pool0"
        using rr_pos_range [OF False, of "current s0"] by (simp add: nat_less_iff)
      have none: "find (\<lambda>k. isHealthy (pool0 ! nat (rr_pos pool0 (current s0) k)))
          [0..<length pool0] = None"
        using a pos by (simp add: find_None_iff IsHealthy_def)
      have "rr_loop pool0 (current s0) (current s0)
          = Some (Inl (Error ''no healthy backends available''), current s0)"
        using rr_loop_fuel_sound [OF rr_loop_fuel_spec [OF False c]] False none
        by (simp add: spec_round_robin_def)
      with False show ?thesis by (simp add: NextBackend_def GetNextBackend_eq)
    qed
  qed
  from p1 p2 p3 GetNextBackend_eq [of lb] show ?thesis by blast
qed

theorem selection_returns_only_healthy_witness:
  "NextBackend NewRoundRobinStrategy [b2_down, b3] = Some (Inr b3, \<lparr>current = 0\<rparr>)
   \<and> b3 \<in> set [b2_down, b3] \<and> IsHealthy b3
   \<and> GetNextBackend \<lparr>backends = [b2_down, b3], strategy = RoundRobin NewRoundRobinStrategy\<rparr>
       = Some (Inr b3, \<lparr>backends = [b2_down, b3], strategy = RoundRobin \<lparr>current = 0\<rparr>\<rparr>)
   \<and> \<not> IsHealthy b2_down
   \<and> (\<exists>msg. NextBackend NewRoundRobinStrategy [b2_down]
         = Some (Inl (Error msg), NewRoundRobinStrategy)
       \<and> GetNextBackend \<lparr>backends = [b2_down], strategy = RoundRobin NewRoundRobinStrategy\<rparr>
           = Some (Inl (Error msg),
               \<lparr>backends = [b2_down], strategy = RoundRobin NewRoundRobinStrategy\<rparr>))"
  using selection_returns_only_healthy
    [of NewRoundRobinStrategy "[b2_down, b3]" b3 "\<lparr>current = 0\<rparr>"
        "\<lparr>backends = [b2_down, b3], strategy = RoundRobin NewRoundRobinStrategy\<rparr>" b3
        "\<lparr>backends = [b2_down, b3], strategy = RoundRobin \<lparr>current = 0\<rparr>\<rparr>"
        "[b2_down]" NewRoundRobinStrategy]
    NextBackend_down_up NextBackend_down
  by (simp add: scenario_health GetNextBackend_eq NewRoundRobinStrategy_def)

text \<open>
  C2. \<open>NextBackend\<close> computes the specified algorithm: with an empty pool, or with the
  cursor a valid index of the pool, it returns what \<open>spec_round_robin\<close> describes and
  leaves the cursor where \<open>spec_round_robin\<close> says.
\<close>

theorem NextBackend_implements_spec:
  assumes "pool = [] \<or> (0 \<le> current s \<and> current s < int (length pool))"
  shows "NextBackend s pool =
    Some (fst (spec_round_robin (current s) pool),
          s\<lparr>current := snd (spec_round_robin (current s) pool)\<rparr>)"
proof (cases "pool = []")
  case True
  then show ?thesis by (simp add: NextBackend_def spec_round_robin_def)
next
  case False
  with assms have c: "0 \<le> current s" "current s < int (length pool)" by simp_all
  have "rr_loop pool (current s) (current s) = Some (spec_round_robin (current s) pool)"
    by (rule rr_loop_fuel_sound [OF rr_loop_fuel_spec [OF False c]])
  with False show ?thesis
    by (simp add: NextBackend_def split_beta)
qed

theorem NextBackend_implements_spec_witness:
  "NextBackend \<lparr>current = 1\<rparr> [b1, b2_down, b3] = Some (Inr b3, \<lparr>current = 0\<rparr>)
   \<and> NextBackend \<lparr>current = 0\<rparr> [] = Some (Inl (Error ''no backends available''), \<lparr>current = 0\<rparr>)
   \<and> NextBackend \<lparr>current = 0\<rparr> [b2_down]
       = Some (Inl (Error ''no healthy backends available''), \<lparr>current = 0\<rparr>)"
  using NextBackend_implements_spec [of "[b1, b2_down, b3]" "\<lparr>current = 1\<rparr>"]
    NextBackend_implements_spec [of "[]" "\<lparr>current = 0\<rparr>"]
    NextBackend_implements_spec [of "[b2_down]" "\<lparr>current = 0\<rparr>"]
  by (simp add: spec_round_robin_def rr_pos_def scenario_health IsHealthy_def [symmetric]
      upt_conv_Cons)

text \<open>
  C8. On a non-empty pool with the cursor a valid index, the scan loop returns after
  inspecting at most \<open>length pool\<close> backends: it returns either a backend or the
  no-healthy-backends error, never by an index panic, and the cursor it leaves is again a
  valid index.
\<close>

theorem NextBackend_terminates:
  assumes "pool \<noteq> []" and "0 \<le> current s" and "current s < int (length pool)"
  shows "\<exists>r c'. rr_loop_fuel (length pool) pool (current s) (current s) = Some (r, c')
      \<and> NextBackend s pool = Some (r, s\<lparr>current := c'\<rparr>)
      \<and> 0 \<le> c' \<and> c' < int (length pool)
      \<and> (r = Inl (Error ''no healthy backends available'') \<or> (\<exists>b. r = Inr b))"
proof -
  let ?sp = "spec_round_robin (current s) pool"
  have fuel: "rr_loop_fuel (length pool) pool (current s) (current s) = Some (fst ?sp, snd ?sp)"
    using rr_loop_fuel_spec [OF assms] by simp
  have nb: "NextBackend s pool = Some (fst ?sp, s\<lparr>current := snd ?sp\<rparr>)"
    using rr_loop_fuel_sound [OF fuel] assms(1) by (simp add: NextBackend_def split_beta)
  have rng: "0 \<le> snd ?sp \<and> snd ?sp < int (length pool)"
    using assms rr_pos_range [OF assms(1)]
    by (simp add: spec_round_robin_def split: option.splits)
  have res: "fst ?sp = Inl (Error ''no healthy backends available'') \<or> (\<exists>b. fst ?sp = Inr b)"
    using assms(1) by (simp add: spec_round_robin_def split: option.splits)
  from fuel nb rng res show ?thesis by blast
qed

lemma rr_loop_fuel_scenario:
  "rr_loop_fuel 3 [b1, b2_down, b3] 1 1 = Some (Inr b3, 0)"
  by (simp add: numeral_3_eq_3 scenario_health)

lemma NextBackend_scenario:
  "NextBackend \<lparr>current = 1\<rparr> [b1, b2_down, b3] = Some (Inr b3, \<lparr>current = 0\<rparr>)"
  using rr_loop_fuel_sound [OF rr_loop_fuel_scenario] by (simp add: NextBackend_def)

theorem NextBackend_terminates_witness:
  "rr_loop_fuel 3 [b1, b2_down, b3] 1 1 = Some (Inr b3, 0)
   \<and> NextBackend \<lparr>current = 1\<rparr> [b1, b2_down, b3] = Some (Inr b3, \<lparr>current = 0\<rparr>)
   \<and> (0::int) \<le> 0 \<and> (0::int) < int (length [b1, b2_down, b3])"
  using NextBackend_terminates [of "[b1, b2_down, b3]" "\<lparr>current = 1\<rparr>"]
    rr_loop_fuel_scenario NextBackend_scenario
  by simp

lemma rr_pos_from_0: "pool \<noteq> [] \<Longrightarrow> nat (rr_pos pool 0 i) = i mod length pool"
  by (simp add: rr_pos_def zmod_int [symmetric])

lemma scenario_distinct: "distinct [b1, b2, b3]"
  by (simp add: b1_def b2_def b3_def NewBackend_def)

text \<open>
  C3. On a pool of \<open>K \<ge> 1\<close> backends that are all healthy, \<open>N\<close> sequential calls on a
  freshly constructed round-robin strategy return the pool order repeated and cut after
  \<open>N\<close> entries (the cyclic shift by zero): call \<open>i\<close> returns the backend at position
  \<open>i mod K\<close>. Every position of the pool is chosen \<open>N div K\<close> or
  \<open>(N + K - 1) div K\<close> times, the floor and the ceiling of \<open>N / K\<close>, and so is every
  backend when the pool has no two equal entries.
\<close>

theorem round_robin_cycles_fairly:
  assumes "pool \<noteq> []" and "\<forall>b\<in>set pool. IsHealthy b"
  shows "NextBackend_times N NewRoundRobinStrategy pool
           = Some (map Inr (take N (concat (replicate N pool))),
                   \<lparr>current = int (N mod length pool)\<rparr>)
    \<and> take N (concat (replicate N pool)) = map (\<lambda>i. pool ! (i mod length pool)) [0..<N]
    \<and> (\<forall>j<length pool. length (filter (\<lambda>i. i mod length pool = j) [0..<N])
          \<in> {N div length pool, (N + length pool - 1) div length pool})
    \<and> (distinct pool \<longrightarrow>
         (\<forall>b\<in>set pool. count_list (take N (concat (replicate N pool))) b
            \<in> {N div length pool, (N + length pool - 1) div length pool}))"
proof -
  let ?K = "length pool"
  have K: "0 < ?K" using assms(1) by simp
  have cyc: "take N (concat (replicate N pool)) = map (\<lambda>i. pool ! (i mod ?K)) [0..<N]"
    using cycle_eq_take_concat [OF assms(1), of N] by simp
  have idx: "\<And>i. nat (rr_pos pool 0 i) = i mod ?K"
    using assms(1) by (rule rr_pos_from_0)
  have fin: "rr_pos pool 0 N = int (N mod ?K)"
    by (simp add: rr_pos_def zmod_int)
  have "NextBackend_times N \<lparr>current = 0\<rparr> pool
      = Some (map (\<lambda>i. Inr (pool ! nat (rr_pos pool 0 i))) [0..<N], \<lparr>current = rr_pos pool 0 N\<rparr>)"
    using NextBackend_times_all_healthy [OF assms(2), of 0 N] K by simp
  then have run: "NextBackend_times N NewRoundRobinStrategy pool
      = Some (map Inr (take N (concat (replicate N pool))), \<lparr>current = int (N mod ?K)\<rparr>)"
    unfolding idx fin cyc NewRoundRobinStrategy_def by (simp add: comp_def)
  have pos: "\<forall>j<?K. length (filter (\<lambda>i. i mod ?K = j) [0..<N]) \<in> {N div ?K, (N + ?K - 1) div ?K}"
  proof (intro allI impI)
    fix j assume "j < ?K"
    from count_residue [OF this, of N] floor_or_ceil [OF K, of N j]
    show "length (filter (\<lambda>i. i mod ?K = j) [0..<N]) \<in> {N div ?K, (N + ?K - 1) div ?K}"
      by simp
  qed
  have cnt: "distinct pool \<longrightarrow>
     (\<forall>b\<in>set pool. count_list (take N (concat (replicate N pool))) b
        \<in> {N div ?K, (N + ?K - 1) div ?K})"
  proof (intro impI ballI)
    fix b assume d: "distinct pool" and "b \<in> set pool"
    then obtain j where j: "j < ?K" "b = pool ! j" by (auto simp add: in_set_conv_nth)
    from count_list_cycle [OF d j(1), of N] pos j
    show "count_list (take N (concat (replicate N pool))) b \<in> {N div ?K, (N + ?K - 1) div ?K}"
      by (simp add: cyc)
  qed
  from run cyc pos cnt show ?thesis by blast
qed

theorem round_robin_cycles_fairly_witness:
  "NextBackend_times 6 NewRoundRobinStrategy [b1, b2, b3]
     = Some ([Inr b1, Inr b2, Inr b3, Inr b1, Inr b2, Inr b3], \<lparr>current = 0\<rparr>)
   \<and> count_list [b1, b2, b3, b1, b2, b3] b2 = 2
   \<and> IsHealthy b1 \<and> IsHealthy b2 \<and> IsHealthy b3 \<and> distinct [b1, b2, b3]"
proof -
  have six: "take 6 (concat (replicate 6 [b1, b2, b3])) = [b1, b2, b3, b1, b2, b3]"
    by (simp add: eval_nat_numeral)
  have d: "b1 \<noteq> b2" "b1 \<noteq> b3" "b2 \<noteq> b3" using scenario_distinct by auto
  then have two: "count_list [b1, b2, b3, b1, b2, b3] b2 = 2" by auto
  from round_robin_cycles_fairly [of "[b1, b2, b3]" 6] six two d show ?thesis
    by (simp add: scenario_health)
qed

section \<open>Proofs: health checking\<close>

text \<open>
  C6. One probe maps its outcome to the health flag: a request that could not be built
  leaves the backend as it was, a transport failure sets the flag to false, and a
  response sets it to true exactly when the status code is 200. No other field changes.
\<close>

theorem checkBackendHealth_outcome:
  "fst (checkBackendHealth b ProbeRequestError) = b
   \<and> fst (checkBackendHealth b ProbeTransportError) = b\<lparr>isHealthy := False\<rparr>
   \<and> fst (checkBackendHealth b (ProbeResponse code)) = b\<lparr>isHealthy := (code = 200)\<rparr>
   \<and> IsHealthy (fst (checkBackendHealth b ProbeRequestError)) = IsHealthy b
   \<and> IsHealthy (fst (checkBackendHealth b ProbeTransportError)) = False
   \<and> IsHealthy (fst (checkBackendHealth b (ProbeResponse code))) = (code = 200)"
  by (simp add: checkBackendHealth_def SetHealthy_def IsHealthy_def Let_def)

theorem checkBackendHealth_outcome_witness:
  "fst (checkBackendHealth b2 ProbeRequestError) = b2
   \<and> IsHealthy (fst (checkBackendHealth b2 ProbeTransportError)) = False
   \<and> IsHealthy (fst (checkBackendHealth b2_down (ProbeResponse 200))) = True
   \<and> IsHealthy (fst (checkBackendHealth b2 (ProbeResponse 204))) = False"
  using checkBackendHealth_outcome [of b2 200] checkBackendHealth_outcome [of b2_down 200]
    checkBackendHealth_outcome [of b2 204]
  by (simp add: IsHealthy_def)

section \<open>Proofs: rate limiter\<close>

lemma SetClientLimits_eq:
  "SetClientLimits tb clientID r b =
     tb\<lparr>clientLimits := (clientLimits tb)(clientID \<mapsto> \<lparr>Rate = r, Burst = b\<rparr>),
        heap := (heap tb)(nextAddr tb \<mapsto> NewLimiter r b),
        nextAddr := Suc (nextAddr tb),
        limiters := (limiters tb)(clientID \<mapsto> nextAddr tb)\<rparr>"
  by (simp add: SetClientLimits_def alloc_def Let_def)

text \<open>
  C5. Reading a client's limits right after setting them gives the rate and burst that
  were set; reading them right after deleting the client gives the defaults, whatever was
  stored before.
\<close>

theorem client_limits_set_get_delete:
  "GetClientLimits (SetClientLimits tb clientID r b) clientID = \<lparr>Rate = r, Burst = b\<rparr>
   \<and> GetClientLimits (DeleteClientLimits tb clientID) clientID
       = \<lparr>Rate = defaultRate tb, Burst = defaultBurst tb\<rparr>"
  by (simp add: GetClientLimits_def SetClientLimits_eq DeleteClientLimits_def)

theorem client_limits_set_get_delete_witness:
  "GetClientLimits (SetClientLimits (NewTokenBucket 100 50) ''api:alice'' 1 2) ''api:alice''
     = \<lparr>Rate = 1, Burst = 2\<rparr>
   \<and> GetClientLimits
        (DeleteClientLimits (SetClientLimits (NewTokenBucket 100 50) ''api:alice'' 1 2)
           ''api:alice'') ''api:alice''
     = \<lparr>Rate = 100, Burst = 50\<rparr>"
  using client_limits_set_get_delete [of "NewTokenBucket 100 50" "''api:alice''" 1 2]
    client_limits_set_get_delete
      [of "SetClientLimits (NewTokenBucket 100 50) ''api:alice'' 1 2" "''api:alice''" 1 2]
  by (simp add: NewTokenBucket_def SetClientLimits_eq)

















section \<open>Proofs: client identifier\<close>

lemma Split_nonempty: "Split s sep \<noteq> []"
  by (induction s) (simp_all split: list.splits)

lemma Split_first: "Split s sep ! 0 = takeWhile (\<lambda>c. c \<noteq> sep) s"
  by (induction s) (auto split: list.splits simp add: Split_nonempty)

lemma Split_append_sep: "Split (a @ sep # b) sep = Split a sep @ Split b sep"
  by (induction a) (simp_all split: list.splits add: Split_nonempty)

lemma Split_no_sep: "sep \<notin> set s \<Longrightarrow> Split s sep = [s]"
  by (induction s) auto

lemma Split_admin_prefix:
  "Split (''/admin/ratelimit/'' @ x) CHR ''/'' = [[], ''admin'', ''ratelimit''] @ Split x CHR ''/''"
  by (simp split: list.splits add: Split_nonempty)

lemma canonical_keys:
  "CanonicalMIMEHeaderKey ''X-API-Key'' = ''X-Api-Key''"
  "CanonicalMIMEHeaderKey ''X-Forwarded-For'' = ''X-Forwarded-For''"
  by (simp_all add: CanonicalMIMEHeaderKey_def toUpper_def toLower_def Let_def)

text \<open>
  C7. The client identifier: the API key, prefixed, when the request carries a non-empty
  one; otherwise the first comma-separated token of a non-empty forwarded-for value,
  trimmed; otherwise the remote address up to its first colon.
\<close>

theorem getClientID_precedence:
  "getClientID TrimSpace r =
     (if Header_Get (Header r) ''X-API-Key'' \<noteq> []
      then ''api:'' @ Header_Get (Header r) ''X-API-Key''
      else if Header_Get (Header r) ''X-Forwarded-For'' \<noteq> []
      then TrimSpace (takeWhile (\<lambda>c. c \<noteq> CHR '','') (Header_Get (Header r) ''X-Forwarded-For''))
      else takeWhile (\<lambda>c. c \<noteq> CHR '':'') (RemoteAddr r))
   \<and> Header_Get (Header r) ''X-API-Key''
       = (case Header r ''X-Api-Key'' of None \<Rightarrow> [] | Some [] \<Rightarrow> [] | Some (v # vs) \<Rightarrow> v)
   \<and> Header_Get (Header r) ''X-Forwarded-For''
       = (case Header r ''X-Forwarded-For'' of None \<Rightarrow> [] | Some [] \<Rightarrow> [] | Some (v # vs) \<Rightarrow> v)"
  by (simp add: getClientID_def Let_def Split_first Header_Get_def canonical_keys)

theorem getClientID_precedence_witness:
  "getClientID trimASCII
      \<lparr>Method = ''GET'', Path = ''/'',
       Header = [''X-Api-Key'' \<mapsto> [''alice''], ''X-Forwarded-For'' \<mapsto> [''203.0.113.9'']],
       RemoteAddr = ''10.0.0.7:51000'', Body = None\<rparr> = ''api:alice''
   \<and> getClientID trimASCII
      \<lparr>Method = ''GET'', Path = ''/'',
       Header = [''X-Forwarded-For'' \<mapsto> ['' 203.0.113.9 , 198.51.100.2'']],
       RemoteAddr = ''10.0.0.7:51000'', Body = None\<rparr> = ''203.0.113.9''
   \<and> getClientID trimASCII
      \<lparr>Method = ''GET'', Path = ''/'', Header = Map.empty,
       RemoteAddr = ''10.0.0.7:51000'', Body = None\<rparr> = ''10.0.0.7''"
  using getClientID_precedence [of trimASCII
      "\<lparr>Method = ''GET'', Path = ''/'',
       Header = [''X-Api-Key'' \<mapsto> [''alice''], ''X-Forwarded-For'' \<mapsto> [''203.0.113.9'']],
       RemoteAddr = ''10.0.0.7:51000'', Body = None\<rparr>"]
    getClientID_precedence [of trimASCII
      "\<lparr>Method = ''GET'', Path = ''/'',
       Header = [''X-Forwarded-For'' \<mapsto> ['' 203.0.113.9 , 198.51.100.2'']],
       RemoteAddr = ''10.0.0.7:51000'', Body = None\<rparr>"]
    getClientID_precedence [of trimASCII
      "\<lparr>Method = ''GET'', Path = ''/'', Header = Map.empty,
       RemoteAddr = ''10.0.0.7:51000'', Body = None\<rparr>"]
  by (simp add: trimASCII_def asciiSpace_def)

section \<open>Proofs: admin handler\<close>

lemma HandleRateLimit_same_client:
  assumes "4 \<le> length (Split (Path r1) CHR ''/'')"
    and "4 \<le> length (Split (Path r2) CHR ''/'')"
    and "Split (Path r1) CHR ''/'' ! 3 = Split (Path r2) CHR ''/'' ! 3"
    and "Method r1 = Method r2" and "Body r1 = Body r2"
  shows "HandleRateLimit tb r1 = HandleRateLimit tb r2"
  using assms
  by (simp add: HandleRateLimit_def Let_def createRateLimit_def updateRateLimit_def)

text \<open>
  C9. The admin handler answers 400 with the invalid-URL message exactly when the path
  has fewer than four segments; otherwise it serves the request for the fourth segment,
  whatever it is. A POST to the bare path with a valid body stores the limits under the
  empty client id, and segments after the client id do not change the outcome.
\<close>

theorem HandleRateLimit_client_id_unvalidated:
  "(fst (HandleRateLimit tb r)
        = http_Error ''Invalid URL format. Use /admin/ratelimit/{clientID}'' 400
      \<longleftrightarrow> length (Split (Path r) CHR ''/'') < 4)
   \<and> (4 \<le> length (Split (Path r) CHR ''/'') \<longrightarrow>
        HandleRateLimit tb r =
          (if Method r = ''GET'' then getRateLimit tb (Split (Path r) CHR ''/'' ! 3)
           else if Method r = ''POST'' then createRateLimit tb r (Split (Path r) CHR ''/'' ! 3)
           else if Method r = ''PUT'' then updateRateLimit tb r (Split (Path r) CHR ''/'' ! 3)
           else if Method r = ''DELETE'' then deleteRateLimit tb (Split (Path r) CHR ''/'' ! 3)
           else (http_Error ''Method not allowed'' 405, tb)))
   \<and> (Path r = ''/admin/ratelimit/'' \<and> Method r = ''POST''
        \<and> Body r = Some \<lparr>Rate = x, Burst = y\<rparr> \<and> 0 < x \<and> 0 < y \<longrightarrow>
        HandleRateLimit tb r = (\<lparr>status = 201, body = NoBody\<rparr>, SetClientLimits tb [] x y)
        \<and> clientLimits (snd (HandleRateLimit tb r)) [] = Some \<lparr>Rate = x, Burst = y\<rparr>)
   \<and> (CHR ''/'' \<notin> set cid \<longrightarrow>
        Split (''/admin/ratelimit/'' @ cid @ ''/'' @ rest) CHR ''/'' ! 3 = cid
        \<and> HandleRateLimit tb (r\<lparr>Path := ''/admin/ratelimit/'' @ cid @ ''/'' @ rest\<rparr>)
            = HandleRateLimit tb (r\<lparr>Path := ''/admin/ratelimit/'' @ cid\<rparr>))"
proof -
  have p1: "fst (HandleRateLimit tb r)
        = http_Error ''Invalid URL format. Use /admin/ratelimit/{clientID}'' 400
      \<longleftrightarrow> length (Split (Path r) CHR ''/'') < 4"
    by (simp add: HandleRateLimit_def Let_def getRateLimit_def createRateLimit_def
        updateRateLimit_def deleteRateLimit_def http_Error_def split: option.splits)
  have p2: "4 \<le> length (Split (Path r) CHR ''/'') \<longrightarrow>
        HandleRateLimit tb r =
          (if Method r = ''GET'' then getRateLimit tb (Split (Path r) CHR ''/'' ! 3)
           else if Method r = ''POST'' then createRateLimit tb r (Split (Path r) CHR ''/'' ! 3)
           else if Method r = ''PUT'' then updateRateLimit tb r (Split (Path r) CHR ''/'' ! 3)
           else if Method r = ''DELETE'' then deleteRateLimit tb (Split (Path r) CHR ''/'' ! 3)
           else (http_Error ''Method not allowed'' 405, tb))"
    by (simp add: HandleRateLimit_def Let_def)
  have p3: "Path r = ''/admin/ratelimit/'' \<and> Method r = ''POST''
        \<and> Body r = Some \<lparr>Rate = x, Burst = y\<rparr> \<and> 0 < x \<and> 0 < y \<longrightarrow>
        HandleRateLimit tb r = (\<lparr>status = 201, body = NoBody\<rparr>, SetClientLimits tb [] x y)
        \<and> clientLimits (snd (HandleRateLimit tb r)) [] = Some \<lparr>Rate = x, Burst = y\<rparr>"
    by (simp add: HandleRateLimit_def Let_def createRateLimit_def SetClientLimits_eq)
  have p4: "CHR ''/'' \<notin> set cid \<longrightarrow>
        Split (''/admin/ratelimit/'' @ cid @ ''/'' @ rest) CHR ''/'' ! 3 = cid
        \<and> HandleRateLimit tb (r\<lparr>Path := ''/admin/ratelimit/'' @ cid @ ''/'' @ rest\<rparr>)
            = HandleRateLimit tb (r\<lparr>Path := ''/admin/ratelimit/'' @ cid\<rparr>)"
  proof
    assume c: "CHR ''/'' \<notin> set cid"
    have long: "Split (''/admin/ratelimit/'' @ cid @ ''/'' @ rest) CHR ''/''
        = [[], ''admin'', ''ratelimit'', cid] @ Split rest CHR ''/''"
      using Split_admin_prefix [of "cid @ ''/'' @ rest"]
        Split_append_sep [of cid "CHR ''/''" rest] Split_no_sep [OF c]
      by simp
    have short: "Split (''/admin/ratelimit/'' @ cid) CHR ''/'' = [[], ''admin'', ''ratelimit'', cid]"
      using Split_admin_prefix [of cid] Split_no_sep [OF c] by simp
    define L S where "L = ''/admin/ratelimit/'' @ cid @ ''/'' @ rest"
      and "S = ''/admin/ratelimit/'' @ cid"
    have sl: "Split L CHR ''/'' = [[], ''admin'', ''ratelimit'', cid] @ Split rest CHR ''/''"
      and ss: "Split S CHR ''/'' = [[], ''admin'', ''ratelimit'', cid]"
      unfolding L_def S_def by (rule long, rule short)
    have third: "Split L CHR ''/'' ! 3 = cid" "Split S CHR ''/'' ! 3 = cid"
      and len: "4 \<le> length (Split L CHR ''/'')" "4 \<le> length (Split S CHR ''/'')"
      unfolding sl ss by simp_all
    have "HandleRateLimit tb (r\<lparr>Path := L\<rparr>) = HandleRateLimit tb (r\<lparr>Path := S\<rparr>)"
      by (rule HandleRateLimit_same_client) (simp_all add: third len)
    with third(1) show "Split (''/admin/ratelimit/'' @ cid @ ''/'' @ rest) CHR ''/'' ! 3 = cid
        \<and> HandleRateLimit tb (r\<lparr>Path := ''/admin/ratelimit/'' @ cid @ ''/'' @ rest\<rparr>)
            = HandleRateLimit tb (r\<lparr>Path := ''/admin/ratelimit/'' @ cid\<rparr>)"
      unfolding L_def S_def by (rule conjI)
  qed
  from p1 p2 p3 p4 show ?thesis by blast
qed

theorem HandleRateLimit_client_id_unvalidated_witness:
  "HandleRateLimit (NewTokenBucket 100 50)
      \<lparr>Method = ''POST'', Path = ''/admin/ratelimit/'', Header = Map.empty,
       RemoteAddr = ''10.0.0.7:51000'', Body = Some \<lparr>Rate = 1, Burst = 2\<rparr>\<rparr>
     = (\<lparr>status = 201, body = NoBody\<rparr>, SetClientLimits (NewTokenBucket 100 50) [] 1 2)
   \<and> Split ''/admin/ratelimit/a/b'' CHR ''/'' ! 3 = ''a''
   \<and> fst (HandleRateLimit (NewTokenBucket 100 50)
        \<lparr>Method = ''GET'', Path = ''/admin'', Header = Map.empty,
         RemoteAddr = ''10.0.0.7:51000'', Body = None\<rparr>)
     = http_Error ''Invalid URL format. Use /admin/ratelimit/{clientID}'' 400"
  using HandleRateLimit_client_id_unvalidated
      [of "NewTokenBucket 100 50"
          "\<lparr>Method = ''POST'', Path = ''/admin/ratelimit/'', Header = Map.empty,
            RemoteAddr = ''10.0.0.7:51000'', Body = Some \<lparr>Rate = 1, Burst = 2\<rparr>\<rparr>"
          1 2 "''a''" "''b''"]
    HandleRateLimit_client_id_unvalidated
      [of "NewTokenBucket 100 50"
          "\<lparr>Method = ''GET'', Path = ''/admin'', Header = Map.empty,
            RemoteAddr = ''10.0.0.7:51000'', Body = None\<rparr>"
          1 2 "''a''" "''b''"]
  by (simp add: createRateLimit_def)

lemma DeleteClientLimits_absent:
  "clientLimits tb clientID = None \<Longrightarrow> limiters tb clientID = None
     \<Longrightarrow> DeleteClientLimits tb clientID = tb"
  by (simp add: DeleteClientLimits_def fun_upd_idem)

lemma DeleteClientLimits_twice:
  "DeleteClientLimits (DeleteClientLimits tb clientID) clientID = DeleteClientLimits tb clientID"
  by (simp add: DeleteClientLimits_def)

text \<open>
  C10. Deleting a client that has neither an entry nor a bucket leaves the rate limiter
  as it was, deleting twice is deleting once, and the DELETE handler answers 204 and
  deletes the client named by the fourth path segment, stored or not.
\<close>

theorem DeleteClientLimits_total_idempotent:
  "(clientLimits tb clientID = None \<and> limiters tb clientID = None
      \<longrightarrow> DeleteClientLimits tb clientID = tb)
   \<and> DeleteClientLimits (DeleteClientLimits tb clientID) clientID
       = DeleteClientLimits tb clientID
   \<and> deleteRateLimit tb clientID
       = (\<lparr>status = 204, body = NoBody\<rparr>, DeleteClientLimits tb clientID)
   \<and> (Method r = ''DELETE'' \<and> 4 \<le> length (Split (Path r) CHR ''/'')
      \<longrightarrow> HandleRateLimit tb r
          = (\<lparr>status = 204, body = NoBody\<rparr>,
             DeleteClientLimits tb (Split (Path r) CHR ''/'' ! 3)))"
  using DeleteClientLimits_absent [of tb clientID] DeleteClientLimits_twice [of tb clientID]
  by (simp add: deleteRateLimit_def HandleRateLimit_def Let_def)

theorem DeleteClientLimits_total_idempotent_witness:
  "DeleteClientLimits (NewTokenBucket 100 50) ''ghost'' = NewTokenBucket 100 50
   \<and> HandleRateLimit (NewTokenBucket 100 50)
        \<lparr>Method = ''DELETE'', Path = ''/admin/ratelimit/ghost'', Header = Map.empty,
         RemoteAddr = ''10.0.0.7:51000'', Body = None\<rparr>
       = (\<lparr>status = 204, body = NoBody\<rparr>, NewTokenBucket 100 50)"
  using DeleteClientLimits_total_idempotent [of "NewTokenBucket 100 50" "''ghost''"
      "\<lparr>Method = ''DELETE'', Path = ''/admin/ratelimit/ghost'', Header = Map.empty,
         RemoteAddr = ''10.0.0.7:51000'', Body = None\<rparr>"]
  by (simp add: NewTokenBucket_def)

end
